theory Spec2Isabelle
  imports Main "HOL-Library.Sublist"
begin

section \<open>The mapping store (app/models.py)\<close>

text \<open>
  A record of the store is a Python dict with the four keys \<open>original_url\<close>,
  \<open>short_code\<close>, \<open>clicks\<close> and \<open>created_at\<close>. Python dicts are objects: a variable
  holds a reference to one, and two references to the same dict see each other's
  writes. The objects therefore live in an explicit heap, a list indexed by address,
  and \<open>URLStore._urls\<close> maps a short code to the address of its dict. Allocation
  appends to the heap, so the address of a new object is the heap's length.
\<close>

type_synonym addr = nat

record url_data =
  original_url :: string
  short_code :: string
  clicks :: int
  created_at :: string

record state =
  heap :: "url_data list"
  urls :: "string \<rightharpoonup> addr"

text \<open>\<open>ValueError\<close> carries its message; \<open>RuntimeError\<close> carries the number of
  attempts its message is formatted from.\<close>

datatype error = ValueError string | RuntimeError nat

record stats =
  url :: string
  stat_clicks :: int
  stat_created_at :: string

text \<open>\<open>url_store = URLStore()\<close>: an empty dict. (The lock is not modelled: every
  operation below is one atomic step.)\<close>

definition url_store :: state where
  "url_store = \<lparr>heap = [], urls = Map.empty\<rparr>"

text \<open>\<open>create_url_mapping\<close>. The argument \<open>now\<close> is the value of
  \<open>datetime.now().isoformat()\<close>. The new dict \<open>url_data\<close> is allocated and stored
  under the code; \<open>url_data.copy()\<close> allocates a second dict with the same
  contents, and the reference to that copy is returned.\<close>

definition create_url_mapping ::
  "string \<Rightarrow> string \<Rightarrow> string \<Rightarrow> state \<Rightarrow> (error + addr) \<times> state" where
  "create_url_mapping now code original s =
     (if code \<in> dom (urls s)
      then (Inl (ValueError (''Short code '' @ [CHR 0x27] @ code @ [CHR 0x27] @ '' already exists'')), s)
      else
        (let d = \<lparr>original_url = original, short_code = code, clicks = 0, created_at = now\<rparr>;
             a = length (heap s);
             h1 = heap s @ [d];
             u1 = (urls s)(code \<mapsto> a);
             b = length h1;
             h2 = h1 @ [h1 ! a]
         in (Inr b, \<lparr>heap = h2, urls = u1\<rparr>)))"

text \<open>\<open>get_url_mapping\<close>: \<open>self._urls.get(short_code)\<close>, that is the reference held
  in the dict itself, or \<open>None\<close>.\<close>

definition get_url_mapping :: "string \<Rightarrow> state \<Rightarrow> addr option \<times> state" where
  "get_url_mapping code s = (urls s code, s)"

text \<open>\<open>increment_clicks\<close>: \<open>self._urls[short_code]['clicks'] += 1\<close> writes into the
  dict the store refers to.\<close>

definition increment_clicks :: "string \<Rightarrow> state \<Rightarrow> bool \<times> state" where
  "increment_clicks code s =
     (case urls s code of
        Some a \<Rightarrow>
          (True, s\<lparr>heap := (heap s)[a := (heap s ! a)\<lparr>clicks := clicks (heap s ! a) + 1\<rparr>]\<rparr>)
      | None \<Rightarrow> (False, s))"

text \<open>\<open>get_stats\<close> builds a new dict of three values. A stored dict always has its
  four keys, so \<open>if url_data:\<close> holds exactly when the code was found.\<close>

definition get_stats :: "string \<Rightarrow> state \<Rightarrow> stats option \<times> state" where
  "get_stats code s =
     (case urls s code of
        Some a \<Rightarrow>
          (Some \<lparr>url = original_url (heap s ! a),
                 stat_clicks = clicks (heap s ! a),
                 stat_created_at = created_at (heap s ! a)\<rparr>, s)
      | None \<Rightarrow> (None, s))"

definition url_exists :: "string \<Rightarrow> state \<Rightarrow> bool \<times> state" where
  "url_exists code s = (code \<in> dom (urls s), s)"

text \<open>The record the store holds under a code, and the dict a reference points to.\<close>

definition lookup :: "state \<Rightarrow> string \<Rightarrow> url_data option" where
  "lookup s code = map_option (\<lambda>a. heap s ! a) (urls s code)"

definition deref :: "state \<Rightarrow> addr \<Rightarrow> url_data" where
  "deref s a = heap s ! a"

text \<open>Every reference in \<open>_urls\<close> points into the heap, at a dict whose
  \<open>short_code\<close> is the key it is stored under.\<close>

definition store_inv :: "state \<Rightarrow> bool" where
  "store_inv s \<longleftrightarrow> (\<forall>c a. urls s c = Some a \<longrightarrow> a < length (heap s) \<and> short_code (heap s ! a) = c)"

text \<open>The operations of the store as data, to speak of every one of them and of
  sequences of them: the state each leaves behind.\<close>

datatype store_op =
  Create string string string
| Get string
| IncrementClicks string
| Exists string
| Stats string

fun apply_op :: "store_op \<Rightarrow> state \<Rightarrow> state" where
  "apply_op (Create now code original) s = snd (create_url_mapping now code original s)"
| "apply_op (Get code) s = snd (get_url_mapping code s)"
| "apply_op (IncrementClicks code) s = snd (increment_clicks code s)"
| "apply_op (Exists code) s = snd (url_exists code s)"
| "apply_op (Stats code) s = snd (get_stats code s)"

section \<open>Validation and code generation (app/utils.py)\<close>

text \<open>\<open>urlparse\<close> belongs to the standard library, not to this program:
  \<open>validate_url\<close> takes as parameter \<open>P\<close> the function that gives
  \<open>urlparse(url).netloc\<close>, or \<open>None\<close> where \<open>urlparse\<close> raises.\<close>

definition validate_url :: "(string \<Rightarrow> string option) \<Rightarrow> string \<Rightarrow> bool \<times> string" where
  "validate_url P u =
     (if u = [] then (False, ''URL cannot be empty'')
      else if \<not> (prefix ''http://'' u \<or> prefix ''https://'' u)
      then (False, ''URL must start with http:// or https://'')
      else
        (case P u of
           None \<Rightarrow> (False, ''Invalid URL format'')
         | Some netloc \<Rightarrow>
             if netloc = [] then (False, ''Invalid URL format'')
             else if length netloc < 3 then (False, ''Invalid domain name'')
             else (True, [])))"

text \<open>\<open>string.ascii_letters + string.digits\<close>.\<close>

definition characters :: string where
  "characters = ''abcdefghijklmnopqrstuvwxyzABCDEFGHIJKLMNOPQRSTUVWXYZ0123456789''"

text \<open>The random number generator is a sequence of numbers and the position of the
  next one. \<open>random.choice(seq)\<close> consumes one number \<open>r\<close> and returns the element of
  \<open>seq\<close> at index \<open>r mod len(seq)\<close>.\<close>

record rng =
  src :: "nat \<Rightarrow> nat"
  pos :: nat

definition random_choice :: "'a list \<Rightarrow> rng \<Rightarrow> 'a \<times> rng" where
  "random_choice xs g = (xs ! (src g (pos g) mod length xs), g\<lparr>pos := Suc (pos g)\<rparr>)"

text \<open>\<open>generate_short_code\<close>: \<open>length\<close> draws, in order. (\<open>range\<close> of a number
  below zero is empty, as \<open>range(0)\<close> is; lengths and attempt counts are naturals.)\<close>

primrec generate_short_code :: "nat \<Rightarrow> rng \<Rightarrow> string \<times> rng" where
  "generate_short_code 0 g = ([], g)"
| "generate_short_code (Suc n) g =
     (let (c, g1) = random_choice characters g;
          (cs, g2) = generate_short_code n g1
      in (c # cs, g2))"

text \<open>The loop of \<open>generate_unique_short_code\<close> with \<open>k\<close> iterations left; \<open>mx\<close> is
  \<open>max_attempts\<close>, which the error reports.\<close>

primrec unique_loop :: "nat \<Rightarrow> nat \<Rightarrow> nat \<Rightarrow> state \<Rightarrow> rng \<Rightarrow> (error + string) \<times> rng" where
  "unique_loop 0 len mx s g = (Inl (RuntimeError mx), g)"
| "unique_loop (Suc k) len mx s g =
     (let (code, g1) = generate_short_code len g
      in if \<not> fst (url_exists code s) then (Inr code, g1)
         else unique_loop k len mx s g1)"

definition generate_unique_short_code ::
  "state \<Rightarrow> nat \<Rightarrow> nat \<Rightarrow> rng \<Rightarrow> (error + string) \<times> rng" where
  "generate_unique_short_code s len max_attempts g = unique_loop max_attempts len max_attempts s g"

text \<open>The candidates that \<open>k\<close> iterations of the loop would generate one after the
  other, whatever the store holds.\<close>

primrec candidates :: "nat \<Rightarrow> nat \<Rightarrow> rng \<Rightarrow> string list" where
  "candidates len 0 g = []"
| "candidates len (Suc k) g =
     (let (code, g1) = generate_short_code len g in code # candidates len k g1)"

text \<open>\<open>str.strip()\<close> removes the characters for which \<open>str.isspace\<close> holds; among
  the 8-bit characters these are 9 to 13, 28 to 32, 133 and 160.\<close>

definition isspace :: "char \<Rightarrow> bool" where
  "isspace c \<longleftrightarrow>
     (let n = (of_char c :: nat)
      in (9 \<le> n \<and> n \<le> 13) \<or> (28 \<le> n \<and> n \<le> 32) \<or> n = 133 \<or> n = 160)"

definition strip :: "string \<Rightarrow> string" where
  "strip u = rev (dropWhile isspace (rev (dropWhile isspace u)))"

definition sanitize_url :: "string \<Rightarrow> string" where
  "sanitize_url u = strip u"

definition format_short_url :: "string \<Rightarrow> string \<Rightarrow> string" where
  "format_short_url code base_url =
     rev (dropWhile (\<lambda>c. c = CHR ''/'') (rev base_url)) @ ''/'' @ code"

section \<open>The request handlers (app/main.py)\<close>

text \<open>The JSON document of a request is an object or missing; the value under a key
  is a string or anything else. A response is a JSON body with a status, or a
  redirect.\<close>

datatype json = JString string | JOther

record request =
  is_json :: bool
  get_json :: "(string \<rightharpoonup> json) option"

datatype body =
  ErrorBody string
| ShortenBody string string
| StatsBody stats

datatype response = Json body nat | Redirect string nat

text \<open>\<open>shorten_url\<close>. A value under \<open>url\<close> that is no string makes \<open>sanitize_url\<close>
  raise, which the outer handler turns into status 500. The code generator and
  \<open>format_short_url\<close> run with their defaults.\<close>

definition shorten_url ::
  "(string \<Rightarrow> string option) \<Rightarrow> string \<Rightarrow> request \<Rightarrow> rng \<Rightarrow> state \<Rightarrow> response \<times> rng \<times> state" where
  "shorten_url P now req g s =
     (if \<not> is_json req then (Json (ErrorBody ''Content-Type must be application/json'') 400, g, s)
      else
        (case get_json req of
           None \<Rightarrow> (Json (ErrorBody ''URL is required'') 400, g, s)
         | Some data \<Rightarrow>
            (case data ''url'' of
               None \<Rightarrow> (Json (ErrorBody ''URL is required'') 400, g, s)
             | Some JOther \<Rightarrow> (Json (ErrorBody ''Internal server error'') 500, g, s)
             | Some (JString raw) \<Rightarrow>
                (let original = sanitize_url raw;
                     (is_valid, error_message) = validate_url P original
                 in if \<not> is_valid then (Json (ErrorBody error_message) 400, g, s)
                    else
                      (case generate_unique_short_code s 6 10 g of
                         (Inl e, g1) \<Rightarrow>
                           (Json (ErrorBody ''Unable to generate short code. Please try again.'') 500, g1, s)
                       | (Inr code, g1) \<Rightarrow>
                           (case create_url_mapping now code original s of
                              (Inl (ValueError msg), s1) \<Rightarrow> (Json (ErrorBody msg) 409, g1, s1)
                            | (Inl (RuntimeError n), s1) \<Rightarrow>
                                (Json (ErrorBody ''Internal server error'') 500, g1, s1)
                            | (Inr r, s1) \<Rightarrow>
                                (Json (ShortenBody code (format_short_url code ''http://localhost:5000'')) 201,
                                 g1, s1)))))))"

text \<open>\<open>redirect_to_url\<close>: the URL is read through the reference that
  \<open>get_url_mapping\<close> returned, after the click was counted.\<close>

definition redirect_to_url :: "string \<Rightarrow> state \<Rightarrow> response \<times> state" where
  "redirect_to_url code s =
     (case get_url_mapping code s of
        (None, s1) \<Rightarrow> (Json (ErrorBody ''Short code not found'') 404, s1)
      | (Some a, s1) \<Rightarrow>
          (let (counted, s2) = increment_clicks code s1
           in (Redirect (original_url (deref s2 a)) 302, s2)))"

definition get_url_stats :: "string \<Rightarrow> state \<Rightarrow> response \<times> state" where
  "get_url_stats code s =
     (case get_stats code s of
        (None, s1) \<Rightarrow> (Json (ErrorBody ''Short code not found'') 404, s1)
      | (Some st, s1) \<Rightarrow> (Json (StatsBody st) 200, s1))"

section \<open>The standard library's parser\<close>

text \<open>The \<open>netloc\<close> of \<open>urllib.parse.urlparse\<close>, as CPython computes it on 8-bit
  characters: leading control characters and spaces are dropped, tabs and line ends
  are removed, a scheme and its colon are split off, and after \<open>//\<close> the netloc runs
  up to the first of \<open>/ ? #\<close>. A netloc with only one of the two square brackets
  raises \<open>ValueError\<close>. (The check of a bracketed host as an IP literal is left out.)
  The theorems on \<open>validate_url\<close> hold for every parser; this one serves in the
  concrete runs.\<close>

definition scheme_char :: "char \<Rightarrow> bool" where
  "scheme_char c \<longleftrightarrow> c \<in> set characters \<or> c \<in> set ''+-.''"

definition ascii_alpha :: "char \<Rightarrow> bool" where
  "ascii_alpha c \<longleftrightarrow> c \<in> set (take 52 characters)"

definition split_scheme :: "string \<Rightarrow> string" where
  "split_scheme u =
     (let i = length (takeWhile (\<lambda>c. c \<noteq> CHR '':'') u)
      in if i < length u \<and> 0 < i \<and> ascii_alpha (hd u) \<and> list_all scheme_char (take i u)
         then drop (Suc i) u else u)"

definition urlparse_netloc :: "string \<Rightarrow> string option" where
  "urlparse_netloc u0 =
     (let u1 = dropWhile (\<lambda>c. (of_char c :: nat) \<le> 32) u0;
          u2 = filter (\<lambda>c. c \<notin> {CHR 0x09, CHR 0x0D, CHR 0x0A}) u1;
          u3 = split_scheme u2
      in if take 2 u3 = ''//''
         then
           (let netloc = takeWhile (\<lambda>c. c \<notin> set ''/?#'') (drop 2 u3)
            in if (CHR ''['' \<in> set netloc) \<noteq> (CHR '']'' \<in> set netloc) then None
               else Some netloc)
         else Some [])"

section \<open>The validator as the specification words it\<close>

text \<open>The scheme of a string is what stands before its first \<open>://\<close>, if there is
  one.\<close>

fun scheme_of :: "string \<Rightarrow> string option" where
  "scheme_of [] = None"
| "scheme_of (c # cs) =
     (if prefix ''://'' (c # cs) then Some [] else map_option ((#) c) (scheme_of cs))"

text \<open>The three conditions under which the specification has \<open>validateUrl\<close> fail:
  the input is empty after trimming; its scheme is not exactly \<open>http\<close> or \<open>https\<close>;
  the parsed host is absent (the parser raised or gave none) or has fewer than three
  characters.\<close>

definition spec_validate_url_fails :: "(string \<Rightarrow> string option) \<Rightarrow> string \<Rightarrow> bool" where
  "spec_validate_url_fails P u \<longleftrightarrow>
     strip u = []
     \<or> scheme_of u \<notin> {Some ''http'', Some ''https''}
     \<or> (case P u of None \<Rightarrow> True | Some netloc \<Rightarrow> length netloc < 3)"

section \<open>Concrete runs\<close>

text \<open>The store after one \<open>create_url_mapping\<close> on the empty store.\<close>

definition example_store :: state where
  "example_store =
     snd (create_url_mapping ''2024-01-01T10:00:00'' ''abc123'' ''https://www.example.com'' url_store)"

text \<open>The request \<open>POST /api/shorten\<close> with content type \<open>application/json\<close> and
  the body \<open>{"url": u}\<close>.\<close>

definition url_request :: "string \<Rightarrow> request" where
  "url_request u = \<lparr>is_json = True, get_json = Some [''url'' \<mapsto> JString u]\<rparr>"

text \<open>A random source whose first six numbers spell \<open>abc123\<close> and whose later numbers
  are all 0.\<close>

definition example_rng :: rng where
  "example_rng = \<lparr>src = (\<lambda>n. if n < 6 then [0, 1, 2, 53, 54, 55] ! n else 0), pos = 0\<rparr>"

section \<open>Properties\<close>

lemma store_inv_url_store: "store_inv url_store"
  by (simp add: store_inv_def url_store_def)

lemma create_fail:
  "code \<in> dom (urls s) \<Longrightarrow>
   create_url_mapping now code u s =
     (Inl (ValueError (''Short code '' @ [CHR 0x27] @ code @ [CHR 0x27] @ '' already exists'')), s)"
  by (simp add: create_url_mapping_def)

lemma create_ok:
  "code \<notin> dom (urls s) \<Longrightarrow>
   create_url_mapping now code u s =
     (Inr (Suc (length (heap s))),
      \<lparr>heap = heap s @ [\<lparr>original_url = u, short_code = code, clicks = 0, created_at = now\<rparr>,
                        \<lparr>original_url = u, short_code = code, clicks = 0, created_at = now\<rparr>],
       urls = (urls s)(code \<mapsto> length (heap s))\<rparr>)"
  by (simp add: create_url_mapping_def Let_def nth_append)

lemma store_inv_create:
  assumes "store_inv s"
  shows "store_inv (snd (create_url_mapping now code u s))"
proof (cases "code \<in> dom (urls s)")
  case True
  then show ?thesis using assms by (simp add: create_fail)
next
  case False
  show ?thesis
    unfolding create_ok [OF False] store_inv_def
  proof (intro allI impI)
    fix c a
    assume h: "urls (snd (Inr (Suc (length (heap s))),
      \<lparr>heap = heap s @ [\<lparr>original_url = u, short_code = code, clicks = 0, created_at = now\<rparr>,
                        \<lparr>original_url = u, short_code = code, clicks = 0, created_at = now\<rparr>],
       urls = (urls s)(code \<mapsto> length (heap s))\<rparr>)) c = Some a"
    show "a < length (heap (snd (Inr (Suc (length (heap s))),
      \<lparr>heap = heap s @ [\<lparr>original_url = u, short_code = code, clicks = 0, created_at = now\<rparr>,
                        \<lparr>original_url = u, short_code = code, clicks = 0, created_at = now\<rparr>],
       urls = (urls s)(code \<mapsto> length (heap s))\<rparr>))) \<and>
       short_code (heap (snd (Inr (Suc (length (heap s))),
      \<lparr>heap = heap s @ [\<lparr>original_url = u, short_code = code, clicks = 0, created_at = now\<rparr>,
                        \<lparr>original_url = u, short_code = code, clicks = 0, created_at = now\<rparr>],
       urls = (urls s)(code \<mapsto> length (heap s))\<rparr>)) ! a) = c"
    proof (cases "c = code")
      case True
      then show ?thesis using h by (auto simp: nth_append)
    next
      case False
      then have "urls s c = Some a" using h by simp
      then have "a < length (heap s) \<and> short_code (heap s ! a) = c"
        using assms by (simp add: store_inv_def)
      then show ?thesis by (simp add: nth_append)
    qed
  qed
qed

lemma store_inv_increment:
  assumes "store_inv s"
  shows "store_inv (snd (increment_clicks code s))"
  using assms
  by (auto simp: increment_clicks_def store_inv_def nth_list_update split: option.splits)

lemma lookup_create_same:
  "code \<notin> dom (urls s) \<Longrightarrow>
   lookup (snd (create_url_mapping now code u s)) code =
     Some \<lparr>original_url = u, short_code = code, clicks = 0, created_at = now\<rparr>"
  by (simp add: create_ok lookup_def nth_append)

lemma lookup_create_other:
  assumes "store_inv s" and "c \<noteq> code"
  shows "lookup (snd (create_url_mapping now code u s)) c = lookup s c"
proof (cases "code \<in> dom (urls s)")
  case True
  then show ?thesis by (simp add: create_fail)
next
  case False
  show ?thesis
  proof (cases "urls s c")
    case None
    then show ?thesis using assms(2) by (simp add: create_ok [OF False] lookup_def)
  next
    case (Some a)
    then have "a < length (heap s)" using assms(1) by (simp add: store_inv_def)
    then show ?thesis using Some assms(2)
      by (simp add: create_ok [OF False] lookup_def nth_append)
  qed
qed

lemma lookup_increment_same:
  assumes "store_inv s" and "lookup s code = Some r"
  shows "increment_clicks code s = (True, snd (increment_clicks code s))"
    and "lookup (snd (increment_clicks code s)) code = Some (r\<lparr>clicks := clicks r + 1\<rparr>)"
proof -
  from assms(2) obtain a where a: "urls s code = Some a" and r: "r = heap s ! a"
    by (auto simp: lookup_def)
  from a assms(1) have lt: "a < length (heap s)" by (simp add: store_inv_def)
  show "increment_clicks code s = (True, snd (increment_clicks code s))"
    using a by (simp add: increment_clicks_def)
  show "lookup (snd (increment_clicks code s)) code = Some (r\<lparr>clicks := clicks r + 1\<rparr>)"
    using a r lt by (simp add: increment_clicks_def lookup_def)
qed

lemma increment_absent:
  "lookup s code = None \<Longrightarrow> increment_clicks code s = (False, s)"
  by (simp add: increment_clicks_def lookup_def split: option.splits)

lemma urls_increment: "urls (snd (increment_clicks code s)) = urls s"
  by (simp add: increment_clicks_def split: option.splits)

lemma lookup_increment_other:
  assumes "store_inv s" and "c \<noteq> code"
  shows "lookup (snd (increment_clicks code s)) c = lookup s c"
proof (cases "urls s code")
  case None
  then show ?thesis by (simp add: increment_clicks_def)
next
  case (Some a)
  show ?thesis
  proof (cases "urls s c")
    case None
    then show ?thesis using Some by (simp add: increment_clicks_def lookup_def)
  next
    case (Some b)
    have "short_code (heap s ! a) = code" using \<open>urls s code = Some a\<close> assms(1)
      by (simp add: store_inv_def)
    moreover have "short_code (heap s ! b) = c" using Some assms(1)
      by (simp add: store_inv_def)
    ultimately have "a \<noteq> b" using assms(2) by auto
    then show ?thesis using Some \<open>urls s code = Some a\<close>
      by (simp add: increment_clicks_def lookup_def)
  qed
qed

text \<open>
  C2. On a store that satisfies the store invariant, \<open>create_url_mapping\<close> raises
  \<open>ValueError\<close> exactly when the code is already a key, and then leaves the store as it
  was; otherwise it returns a reference to a record with the given URL and code, no clicks
  and the current time, the store holds an equal record under the code, and the code is
  the only new key while every other key keeps its record.
\<close>

theorem create_url_mapping_correct:
  assumes "store_inv s"
  shows "(code \<in> dom (urls s) \<longrightarrow>
            (\<exists>msg. create_url_mapping now code u s = (Inl (ValueError msg), s)))
       \<and> (code \<notin> dom (urls s) \<longrightarrow>
            (\<exists>r s'. create_url_mapping now code u s = (Inr r, s')
               \<and> deref s' r = \<lparr>original_url = u, short_code = code, clicks = 0, created_at = now\<rparr>
               \<and> lookup s' code = Some (deref s' r)
               \<and> dom (urls s') = insert code (dom (urls s))
               \<and> (\<forall>c. c \<noteq> code \<longrightarrow> lookup s' c = lookup s c)))"
proof (intro conjI impI)
  assume "code \<in> dom (urls s)"
  then show "\<exists>msg. create_url_mapping now code u s = (Inl (ValueError msg), s)"
    by (simp add: create_fail)
next
  assume new: "code \<notin> dom (urls s)"
  let ?s' = "snd (create_url_mapping now code u s)"
  have 1: "create_url_mapping now code u s = (Inr (Suc (length (heap s))), ?s')"
    by (simp add: create_ok [OF new])
  have 2: "deref ?s' (Suc (length (heap s))) =
      \<lparr>original_url = u, short_code = code, clicks = 0, created_at = now\<rparr>"
    by (simp add: create_ok [OF new] deref_def nth_append)
  have 3: "lookup ?s' code = Some (deref ?s' (Suc (length (heap s))))"
    unfolding 2 by (rule lookup_create_same [OF new])
  have 4: "dom (urls ?s') = insert code (dom (urls s))"
    by (simp add: create_ok [OF new])
  have 5: "\<forall>c. c \<noteq> code \<longrightarrow> lookup ?s' c = lookup s c"
    using lookup_create_other [OF assms] by blast
  from 1 2 3 4 5
  show "\<exists>r s'. create_url_mapping now code u s = (Inr r, s')
               \<and> deref s' r = \<lparr>original_url = u, short_code = code, clicks = 0, created_at = now\<rparr>
               \<and> lookup s' code = Some (deref s' r)
               \<and> dom (urls s') = insert code (dom (urls s))
               \<and> (\<forall>c. c \<noteq> code \<longrightarrow> lookup s' c = lookup s c)"
    by blast
qed

text \<open>
  C7. On a store that satisfies the store invariant, \<open>increment_clicks\<close> returns
  \<open>True\<close> and adds one to the \<open>clicks\<close> of the record under the code when there is
  one, changing no other field of it; it returns \<open>False\<close> and leaves the store as it was
  when there is none; the records under all other codes and the set of keys stay the same.
\<close>

theorem increment_clicks_correct:
  assumes "store_inv s"
  shows "(\<forall>r. lookup s code = Some r \<longrightarrow>
            fst (increment_clicks code s)
          \<and> lookup (snd (increment_clicks code s)) code = Some (r\<lparr>clicks := clicks r + 1\<rparr>))
       \<and> (lookup s code = None \<longrightarrow> increment_clicks code s = (False, s))
       \<and> (\<forall>c. c \<noteq> code \<longrightarrow> lookup (snd (increment_clicks code s)) c = lookup s c)
       \<and> dom (urls (snd (increment_clicks code s))) = dom (urls s)"
proof (intro conjI allI impI)
  fix r assume r: "lookup s code = Some r"
  show "fst (increment_clicks code s)"
    using lookup_increment_same(1) [OF assms r] by (metis fst_conv)
  show "lookup (snd (increment_clicks code s)) code = Some (r\<lparr>clicks := clicks r + 1\<rparr>)"
    by (rule lookup_increment_same(2) [OF assms r])
next
  assume "lookup s code = None"
  then show "increment_clicks code s = (False, s)" by (rule increment_absent)
next
  fix c assume "c \<noteq> code"
  then show "lookup (snd (increment_clicks code s)) c = lookup s c"
    by (rule lookup_increment_other [OF assms])
next
  show "dom (urls (snd (increment_clicks code s))) = dom (urls s)"
    by (simp add: urls_increment)
qed

lemma example_store_eq:
  "example_store =
     \<lparr>heap = [\<lparr>original_url = ''https://www.example.com'', short_code = ''abc123'', clicks = 0,
                created_at = ''2024-01-01T10:00:00''\<rparr>,
              \<lparr>original_url = ''https://www.example.com'', short_code = ''abc123'', clicks = 0,
                created_at = ''2024-01-01T10:00:00''\<rparr>],
      urls = [''abc123'' \<mapsto> 0]\<rparr>"
  by (simp add: example_store_def create_url_mapping_def url_store_def Let_def)

lemma store_inv_example_store: "store_inv example_store"
  unfolding example_store_def by (rule store_inv_create [OF store_inv_url_store])

theorem create_url_mapping_correct_witness:
  "store_inv url_store \<and> ''abc123'' \<notin> dom (urls url_store)
   \<and> (\<exists>r s'. create_url_mapping ''2024-01-01T10:00:00'' ''abc123'' ''https://www.example.com'' url_store
                = (Inr r, s')
         \<and> lookup s' ''abc123'' =
             Some \<lparr>original_url = ''https://www.example.com'', short_code = ''abc123'', clicks = 0,
                    created_at = ''2024-01-01T10:00:00''\<rparr>)
   \<and> store_inv example_store \<and> ''abc123'' \<in> dom (urls example_store)
   \<and> (\<exists>msg. create_url_mapping ''2024-01-02T10:00:00'' ''abc123'' ''https://www.github.com'' example_store
                = (Inl (ValueError msg), example_store))"
proof -
  have a: "''abc123'' \<notin> dom (urls url_store)" by (simp add: url_store_def)
  have b: "''abc123'' \<in> dom (urls example_store)" by (simp add: example_store_eq)
  from create_url_mapping_correct [OF store_inv_url_store, of "''abc123''"
      "''2024-01-01T10:00:00''" "''https://www.example.com''"] a
  have c: "\<exists>r s'. create_url_mapping ''2024-01-01T10:00:00'' ''abc123'' ''https://www.example.com'' url_store
                = (Inr r, s')
         \<and> lookup s' ''abc123'' =
             Some \<lparr>original_url = ''https://www.example.com'', short_code = ''abc123'', clicks = 0,
                    created_at = ''2024-01-01T10:00:00''\<rparr>"
    by auto
  from create_url_mapping_correct [OF store_inv_example_store, of "''abc123''"
      "''2024-01-02T10:00:00''" "''https://www.github.com''"] b
  have d: "\<exists>msg. create_url_mapping ''2024-01-02T10:00:00'' ''abc123'' ''https://www.github.com'' example_store
                = (Inl (ValueError msg), example_store)"
    by blast
  from a b c d store_inv_url_store store_inv_example_store show ?thesis by blast
qed

theorem increment_clicks_correct_witness:
  "store_inv example_store
   \<and> lookup example_store ''abc123'' =
       Some \<lparr>original_url = ''https://www.example.com'', short_code = ''abc123'', clicks = 0,
              created_at = ''2024-01-01T10:00:00''\<rparr>
   \<and> fst (increment_clicks ''abc123'' example_store)
   \<and> lookup (snd (increment_clicks ''abc123'' example_store)) ''abc123'' =
       Some \<lparr>original_url = ''https://www.example.com'', short_code = ''abc123'', clicks = 1,
              created_at = ''2024-01-01T10:00:00''\<rparr>
   \<and> lookup example_store ''zzzzzz'' = None
   \<and> increment_clicks ''zzzzzz'' example_store = (False, example_store)"
proof -
  have a: "lookup example_store ''abc123'' =
       Some \<lparr>original_url = ''https://www.example.com'', short_code = ''abc123'', clicks = 0,
              created_at = ''2024-01-01T10:00:00''\<rparr>"
    by (simp add: example_store_eq lookup_def)
  have b: "lookup example_store ''zzzzzz'' = None"
    by (simp add: example_store_eq lookup_def)
  from increment_clicks_correct [OF store_inv_example_store, of "''abc123''"] a
  have c: "fst (increment_clicks ''abc123'' example_store)
   \<and> lookup (snd (increment_clicks ''abc123'' example_store)) ''abc123'' =
       Some \<lparr>original_url = ''https://www.example.com'', short_code = ''abc123'', clicks = 1,
              created_at = ''2024-01-01T10:00:00''\<rparr>"
    by simp
  from increment_clicks_correct [OF store_inv_example_store, of "''zzzzzz''"] b
  have d: "increment_clicks ''zzzzzz'' example_store = (False, example_store)" by blast
  from a b c d store_inv_example_store show ?thesis by blast
qed

text \<open>
  C1. \<open>get_url_mapping\<close> returns the reference that the store itself holds: on the
  store with the one code \<open>abc123\<close> it returns address 0, the address in \<open>_urls\<close>, and
  the dict read through that reference has 0 clicks before a later \<open>increment_clicks\<close>
  and 1 click after it. The value returned earlier has changed with the store.
\<close>

theorem get_url_mapping_returns_alias:
  "fst (get_url_mapping ''abc123'' example_store) = Some 0
   \<and> snd (get_url_mapping ''abc123'' example_store) = example_store
   \<and> clicks (deref example_store 0) = 0
   \<and> clicks (deref (snd (increment_clicks ''abc123'' example_store)) 0) = 1"
  by (simp add: get_url_mapping_def increment_clicks_def deref_def example_store_eq)

lemma get_url_mapping_is_store_reference:
  "fst (get_url_mapping code s) = urls s code"
  by (simp add: get_url_mapping_def)

lemma create_url_mapping_returns_copy:
  assumes "store_inv s" and "create_url_mapping now code u s = (Inr r, s1)"
  shows "r \<notin> ran (urls s1)"
    and "deref (snd (increment_clicks c s1)) r = deref s1 r"
proof -
  have new: "code \<notin> dom (urls s)" using assms(2)
    by (auto simp: create_url_mapping_def split: if_splits)
  have r: "r = Suc (length (heap s))" and s1: "urls s1 = (urls s)(code \<mapsto> length (heap s))"
    using assms(2) by (auto simp: create_ok [OF new])
  show 1: "r \<notin> ran (urls s1)"
  proof
    assume "r \<in> ran (urls s1)"
    then obtain k where k: "urls s1 k = Some r" by (auto simp: ran_def)
    show False
    proof (cases "k = code")
      case True then show ?thesis using k r s1 by simp
    next
      case False
      then have "urls s k = Some r" using k s1 by simp
      then have "r < length (heap s)" using assms(1) by (simp add: store_inv_def)
      then show ?thesis using r by simp
    qed
  qed
  show "deref (snd (increment_clicks c s1)) r = deref s1 r"
  proof (cases "urls s1 c")
    case None then show ?thesis by (simp add: increment_clicks_def)
  next
    case (Some a)
    then have "a \<noteq> r" using 1 by (auto simp: ran_def)
    then show ?thesis using Some by (simp add: increment_clicks_def deref_def)
  qed
qed

lemma store_inv_apply_op: "store_inv s \<Longrightarrow> store_inv (apply_op op s)"
  by (cases op)
     (simp_all add: store_inv_create store_inv_increment get_url_mapping_def url_exists_def
        get_stats_def split: option.splits)

lemma lookup_apply_op:
  assumes "store_inv s" and "lookup s c = Some r"
  shows "lookup (apply_op op s) c =
           Some (r\<lparr>clicks := clicks r + (if op = IncrementClicks c then 1 else 0)\<rparr>)"
proof (cases op)
  case (Create now code original)
  show ?thesis
  proof (cases "code = c")
    case True
    then have "code \<in> dom (urls s)" using assms(2) by (auto simp: lookup_def)
    then show ?thesis using Create assms(2) by (simp add: create_fail)
  next
    case False
    then have "c \<noteq> code" by simp
    then show ?thesis using Create assms by (simp add: lookup_create_other)
  qed
next
  case (Get code)
  then show ?thesis using assms(2) by (simp add: get_url_mapping_def)
next
  case (IncrementClicks code)
  show ?thesis
  proof (cases "code = c")
    case True
    then show ?thesis using IncrementClicks lookup_increment_same(2) [OF assms] by simp
  next
    case False
    then have "c \<noteq> code" by simp
    then show ?thesis using IncrementClicks assms by (simp add: lookup_increment_other)
  qed
next
  case (Exists code)
  then show ?thesis using assms(2) by (simp add: url_exists_def)
next
  case (Stats code)
  then show ?thesis using assms(2) by (simp add: get_stats_def split: option.splits)
qed

lemma lookup_fold_apply_op:
  "store_inv s \<Longrightarrow> lookup s c = Some r \<Longrightarrow>
   lookup (fold apply_op ops s) c =
     Some (r\<lparr>clicks := clicks r + int (count_list ops (IncrementClicks c))\<rparr>)"
proof (induction ops arbitrary: s r)
  case Nil
  then show ?case by simp
next
  case (Cons op ops)
  let ?r1 = "r\<lparr>clicks := clicks r + (if op = IncrementClicks c then 1 else 0)\<rparr>"
  have inv: "store_inv (apply_op op s)" by (rule store_inv_apply_op [OF Cons.prems(1)])
  have l: "lookup (apply_op op s) c = Some ?r1" by (rule lookup_apply_op [OF Cons.prems])
  show ?case using Cons.IH [OF inv l] by simp
qed

text \<open>
  C8. Starting from a store that satisfies the store invariant, after any sequence of store
  operations (create, get, increment_clicks, url_exists, get_stats, with any arguments) a
  record that was present is still present, with the same \<open>original_url\<close>, \<open>short_code\<close>
  and \<open>created_at\<close>; its \<open>clicks\<close> have grown by the number of \<open>increment_clicks\<close> calls
  on its code in the sequence, so they never decrease, and a sequence without such a call
  (reads such as \<open>get_stats\<close> in particular) leaves the record as it was.
\<close>

theorem store_operations_preserve_records:
  assumes "store_inv s" and "lookup s c = Some r"
  shows "\<exists>r'. lookup (fold apply_op ops s) c = Some r'
           \<and> original_url r' = original_url r
           \<and> short_code r' = short_code r
           \<and> created_at r' = created_at r
           \<and> clicks r' = clicks r + int (count_list ops (IncrementClicks c))
           \<and> clicks r \<le> clicks r'
           \<and> (IncrementClicks c \<notin> set ops \<longrightarrow> r' = r)"
proof -
  let ?r' = "r\<lparr>clicks := clicks r + int (count_list ops (IncrementClicks c))\<rparr>"
  have "lookup (fold apply_op ops s) c = Some ?r'"
    by (rule lookup_fold_apply_op [OF assms])
  moreover have "IncrementClicks c \<notin> set ops \<longrightarrow> ?r' = r"
    by (simp add: count_list_0_iff)
  ultimately show ?thesis by auto
qed

theorem store_operations_preserve_records_witness:
  "store_inv example_store
   \<and> lookup example_store ''abc123'' =
       Some \<lparr>original_url = ''https://www.example.com'', short_code = ''abc123'', clicks = 0,
              created_at = ''2024-01-01T10:00:00''\<rparr>
   \<and> lookup (fold apply_op
         [Stats ''abc123'', IncrementClicks ''abc123'',
          Create ''2024-01-03T10:00:00'' ''abc123'' ''https://www.github.com'',
          Get ''abc123'', IncrementClicks ''abc123'', Exists ''abc123'',
          Create ''2024-01-03T10:00:00'' ''xyz789'' ''https://www.github.com'',
          IncrementClicks ''xyz789''] example_store) ''abc123'' =
       Some \<lparr>original_url = ''https://www.example.com'', short_code = ''abc123'', clicks = 2,
              created_at = ''2024-01-01T10:00:00''\<rparr>
   \<and> lookup (fold apply_op [Stats ''abc123'', Get ''abc123'', Stats ''abc123''] example_store)
         ''abc123'' =
       Some \<lparr>original_url = ''https://www.example.com'', short_code = ''abc123'', clicks = 0,
              created_at = ''2024-01-01T10:00:00''\<rparr>"
proof -
  let ?r = "\<lparr>original_url = ''https://www.example.com'', short_code = ''abc123'', clicks = 0,
              created_at = ''2024-01-01T10:00:00''\<rparr>"
  have a: "lookup example_store ''abc123'' = Some ?r"
    by (simp add: example_store_eq lookup_def)
  from store_operations_preserve_records [OF store_inv_example_store a,
      of "[Stats ''abc123'', IncrementClicks ''abc123'',
          Create ''2024-01-03T10:00:00'' ''abc123'' ''https://www.github.com'',
          Get ''abc123'', IncrementClicks ''abc123'', Exists ''abc123'',
          Create ''2024-01-03T10:00:00'' ''xyz789'' ''https://www.github.com'',
          IncrementClicks ''xyz789'']"]
  obtain r' where b: "lookup (fold apply_op
         [Stats ''abc123'', IncrementClicks ''abc123'',
          Create ''2024-01-03T10:00:00'' ''abc123'' ''https://www.github.com'',
          Get ''abc123'', IncrementClicks ''abc123'', Exists ''abc123'',
          Create ''2024-01-03T10:00:00'' ''xyz789'' ''https://www.github.com'',
          IncrementClicks ''xyz789''] example_store) ''abc123'' = Some r'"
    and "original_url r' = ''https://www.example.com''" and "short_code r' = ''abc123''"
    and "created_at r' = ''2024-01-01T10:00:00''" and "clicks r' = 2"
    by auto
  then have c: "r' = \<lparr>original_url = ''https://www.example.com'', short_code = ''abc123'', clicks = 2,
              created_at = ''2024-01-01T10:00:00''\<rparr>"
    by (cases r') simp
  from store_operations_preserve_records [OF store_inv_example_store a,
      of "[Stats ''abc123'', Get ''abc123'', Stats ''abc123'']"]
  have d: "lookup (fold apply_op [Stats ''abc123'', Get ''abc123'', Stats ''abc123''] example_store)
         ''abc123'' = Some ?r"
    by auto
  from a b c d store_inv_example_store show ?thesis by simp
qed

lemma random_choice_in: "xs \<noteq> [] \<Longrightarrow> fst (random_choice xs g) \<in> set xs"
  by (simp add: random_choice_def)

lemma characters_length: "length characters = 62"
  by (simp add: characters_def)

lemma characters_distinct: "distinct characters"
  by (simp add: characters_def)

lemma generate_short_code_length: "length (fst (generate_short_code n g)) = n"
  by (induction n arbitrary: g) (simp_all add: split_beta Let_def)

lemma generate_short_code_set: "set (fst (generate_short_code n g)) \<subseteq> set characters"
proof (induction n arbitrary: g)
  case 0
  then show ?case by simp
next
  case (Suc n)
  have "characters \<noteq> []" by (simp add: characters_def)
  then have "fst (random_choice characters g) \<in> set characters" by (rule random_choice_in)
  then show ?case using Suc by (simp add: split_beta Let_def)
qed

lemma generate_short_code_rng: "snd (generate_short_code n g) = g\<lparr>pos := pos g + n\<rparr>"
  by (induction n arbitrary: g) (simp_all add: split_beta Let_def random_choice_def)

lemma candidates_length: "length (candidates len k g) = k"
  by (induction k arbitrary: g) (simp_all add: split_beta)

lemma candidates_shape: "c \<in> set (candidates len k g) \<Longrightarrow> length c = len \<and> set c \<subseteq> set characters"
proof (induction k arbitrary: g)
  case 0
  then show ?case by simp
next
  case (Suc k)
  then show ?case
    using generate_short_code_length [of len g] generate_short_code_set [of len g]
    by (auto simp: split_beta)
qed

lemma find_Some_holds: "find P xs = Some x \<Longrightarrow> x \<in> set xs \<and> P x"
  by (induction xs) (auto split: if_splits)

lemma unique_loop_find:
  "fst (unique_loop k len mx s g) =
     (case find (\<lambda>c. c \<notin> dom (urls s)) (candidates len k g) of
        Some c \<Rightarrow> Inr c | None \<Rightarrow> Inl (RuntimeError mx))"
  by (induction k arbitrary: g) (simp_all add: split_beta url_exists_def)

lemma unique_loop_rng:
  "\<exists>j\<le>k. snd (unique_loop k len mx s g) = g\<lparr>pos := pos g + j * len\<rparr>"
proof (induction k arbitrary: g)
  case 0
  then show ?case by simp
next
  case (Suc k)
  let ?g1 = "snd (generate_short_code len g)"
  show ?case
  proof (cases "fst (url_exists (fst (generate_short_code len g)) s)")
    case False
    then have "snd (unique_loop (Suc k) len mx s g) = g\<lparr>pos := pos g + 1 * len\<rparr>"
      by (simp add: split_beta generate_short_code_rng)
    then show ?thesis by (intro exI [of _ 1]) simp
  next
    case True
    from Suc [of ?g1] obtain j where j: "j \<le> k"
      and e: "snd (unique_loop k len mx s ?g1) = ?g1\<lparr>pos := pos ?g1 + j * len\<rparr>"
      by blast
    have "snd (unique_loop (Suc k) len mx s g) = g\<lparr>pos := pos g + Suc j * len\<rparr>"
      using True e by (simp add: split_beta generate_short_code_rng add.assoc)
    then show ?thesis using j by (intro exI [of _ "Suc j"]) simp
  qed
qed

text \<open>
  C6. \<open>generate_unique_short_code\<close> returns the first of its \<open>max_attempts\<close> candidates that
  is not a key of the store, and raises \<open>RuntimeError\<close> exactly when every one of them is a
  key; it makes at most \<open>max_attempts\<close> attempts, each consuming \<open>length\<close> random numbers.
\<close>

theorem generate_unique_short_code_correct:
  "fst (generate_unique_short_code s len max_attempts g) =
     (case find (\<lambda>c. c \<notin> dom (urls s)) (candidates len max_attempts g) of
        Some c \<Rightarrow> Inr c | None \<Rightarrow> Inl (RuntimeError max_attempts))
   \<and> length (candidates len max_attempts g) = max_attempts
   \<and> (fst (generate_unique_short_code s len max_attempts g) = Inl (RuntimeError max_attempts)
        \<longleftrightarrow> set (candidates len max_attempts g) \<subseteq> dom (urls s))
   \<and> (\<exists>j\<le>max_attempts.
        snd (generate_unique_short_code s len max_attempts g) = g\<lparr>pos := pos g + j * len\<rparr>)"
proof (intro conjI)
  show 1: "fst (generate_unique_short_code s len max_attempts g) =
     (case find (\<lambda>c. c \<notin> dom (urls s)) (candidates len max_attempts g) of
        Some c \<Rightarrow> Inr c | None \<Rightarrow> Inl (RuntimeError max_attempts))"
    by (simp add: generate_unique_short_code_def unique_loop_find)
  show "length (candidates len max_attempts g) = max_attempts" by (rule candidates_length)
  show "fst (generate_unique_short_code s len max_attempts g) = Inl (RuntimeError max_attempts)
        \<longleftrightarrow> set (candidates len max_attempts g) \<subseteq> dom (urls s)"
    unfolding 1 by (auto simp: find_None_iff dest: find_Some_holds split: option.splits)
  show "\<exists>j\<le>max_attempts.
        snd (generate_unique_short_code s len max_attempts g) = g\<lparr>pos := pos g + j * len\<rparr>"
    unfolding generate_unique_short_code_def by (rule unique_loop_rng)
qed

lemma generate_short_code_numeral:
  "generate_short_code (numeral k) g =
     (let (c, g1) = random_choice characters g;
          (cs, g2) = generate_short_code (pred_numeral k) g1
      in (c # cs, g2))"
  by (simp add: numeral_eq_Suc)

lemma generate_short_code_example_1:
  "generate_short_code 6 example_rng = (''abc123'', example_rng\<lparr>pos := 6\<rparr>)"
  by (simp add: example_rng_def characters_def random_choice_def generate_short_code_numeral)

lemma generate_short_code_example_2:
  "generate_short_code 6 (example_rng\<lparr>pos := 6\<rparr>) = (''aaaaaa'', example_rng\<lparr>pos := 12\<rparr>)"
  by (simp add: example_rng_def characters_def random_choice_def generate_short_code_numeral)

lemma candidates_example_1: "candidates 6 (Suc 0) example_rng = [''abc123'']"
  by (simp add: generate_short_code_example_1)

lemma candidates_example_2: "candidates 6 2 example_rng = [''abc123'', ''aaaaaa'']"
  by (simp add: numeral_2_eq_2 generate_short_code_example_1 generate_short_code_example_2)

theorem generate_unique_short_code_correct_witness:
  "fst (generate_unique_short_code example_store 6 2 example_rng) = Inr ''aaaaaa''
   \<and> fst (generate_unique_short_code example_store 6 (Suc 0) example_rng) = Inl (RuntimeError (Suc 0))"
proof -
  have d: "dom (urls example_store) = {''abc123''}" by (simp add: example_store_eq)
  have "fst (generate_unique_short_code example_store 6 2 example_rng) =
     (case find (\<lambda>c. c \<notin> dom (urls example_store)) (candidates 6 2 example_rng) of
        Some c \<Rightarrow> Inr c | None \<Rightarrow> Inl (RuntimeError 2))"
    using generate_unique_short_code_correct [of example_store 6 2 example_rng] by (rule conjunct1)
  then have a: "fst (generate_unique_short_code example_store 6 2 example_rng) = Inr ''aaaaaa''"
    unfolding candidates_example_2 d by simp
  have "fst (generate_unique_short_code example_store 6 (Suc 0) example_rng) =
     (case find (\<lambda>c. c \<notin> dom (urls example_store)) (candidates 6 (Suc 0) example_rng) of
        Some c \<Rightarrow> Inr c | None \<Rightarrow> Inl (RuntimeError (Suc 0)))"
    using generate_unique_short_code_correct [of example_store 6 "Suc 0" example_rng]
    by (rule conjunct1)
  then have b: "fst (generate_unique_short_code example_store 6 (Suc 0) example_rng) =
      Inl (RuntimeError (Suc 0))"
    unfolding candidates_example_1 d by simp
  from a b show ?thesis by blast
qed

lemma scheme_of_Some_Nil: "scheme_of u = Some [] \<longleftrightarrow> prefix ''://'' u"
  by (cases u) auto

lemma scheme_of_Some_Cons:
  "scheme_of u = Some (x # xs) \<longleftrightarrow> (\<exists>cs. u = x # cs \<and> \<not> prefix ''://'' u \<and> scheme_of cs = Some xs)"
  by (cases u) auto

lemma scheme_of_http: "scheme_of u = Some ''http'' \<longleftrightarrow> prefix ''http://'' u"
  by (auto simp: scheme_of_Some_Cons scheme_of_Some_Nil prefix_def)

lemma scheme_of_https: "scheme_of u = Some ''https'' \<longleftrightarrow> prefix ''https://'' u"
  by (auto simp: scheme_of_Some_Cons scheme_of_Some_Nil prefix_def)

lemma strip_eq_Nil: "strip u = [] \<longleftrightarrow> (\<forall>c\<in>set u. isspace c)"
proof
  assume "strip u = []"
  then have "dropWhile isspace (rev (dropWhile isspace u)) = []" by (simp add: strip_def)
  then have "\<forall>c\<in>set (dropWhile isspace u). isspace c" by simp
  moreover have "\<forall>c\<in>set (takeWhile isspace u). isspace c" by (auto dest: set_takeWhileD)
  moreover have "set u = set (takeWhile isspace u) \<union> set (dropWhile isspace u)"
    by (metis set_append takeWhile_dropWhile_id)
  ultimately show "\<forall>c\<in>set u. isspace c" by blast
next
  assume "\<forall>c\<in>set u. isspace c"
  then show "strip u = []" by (auto simp: strip_def dest: set_dropWhileD)
qed

lemma not_isspace_h: "\<not> isspace CHR ''h''"
  by (simp add: isspace_def)

lemma prefix_http_hd: "prefix ''http://'' u \<or> prefix ''https://'' u \<Longrightarrow> u \<noteq> [] \<and> hd u = CHR ''h''"
  by (auto simp: prefix_def)

lemma prefix_http_strip: "prefix ''http://'' u \<or> prefix ''https://'' u \<Longrightarrow> strip u \<noteq> []"
proof -
  assume "prefix ''http://'' u \<or> prefix ''https://'' u"
  then have "u \<noteq> []" and "hd u = CHR ''h''" using prefix_http_hd by blast+
  then have "CHR ''h'' \<in> set u" by (cases u) auto
  then show ?thesis using not_isspace_h by (auto simp: strip_eq_Nil)
qed

lemma spec_validate_url_fails_iff:
  "spec_validate_url_fails P u \<longleftrightarrow>
     \<not> (prefix ''http://'' u \<or> prefix ''https://'' u)
     \<or> (case P u of None \<Rightarrow> True | Some netloc \<Rightarrow> length netloc < 3)"
  using prefix_http_strip [of u]
  by (auto simp: spec_validate_url_fails_def scheme_of_http scheme_of_https)

text \<open>
  C5. Whatever the parser, \<open>validate_url\<close> returns \<open>False\<close> with a reason that is not empty
  exactly when the input is empty after trimming, or the text before its first \<open>://\<close> is not
  exactly \<open>http\<close> or \<open>https\<close>, or the parsed netloc is absent or shorter than three
  characters; for every other input it returns \<open>True\<close> with the empty reason.
\<close>

theorem validate_url_correct:
  "(spec_validate_url_fails P u \<longrightarrow>
      \<not> fst (validate_url P u) \<and> snd (validate_url P u) \<noteq> [])
   \<and> (\<not> spec_validate_url_fails P u \<longrightarrow> validate_url P u = (True, []))"
  unfolding spec_validate_url_fails_iff
  by (cases "P u") (auto simp: validate_url_def)

lemmas urlparse_netloc_eval =
  urlparse_netloc_def split_scheme_def ascii_alpha_def scheme_char_def characters_def

lemma netloc_example: "urlparse_netloc ''https://www.example.com'' = Some ''www.example.com''"
  by (simp add: urlparse_netloc_eval)

lemma netloc_example_trailing:
  "urlparse_netloc ''https://www.example.com '' = Some ''www.example.com ''"
  by (simp add: urlparse_netloc_eval)

lemma netloc_example_short: "urlparse_netloc ''http://ab'' = Some ''ab''"
  by (simp add: urlparse_netloc_eval)

lemma sanitize_example_leading: "sanitize_url '' https://www.example.com'' = ''https://www.example.com''"
  by (simp add: sanitize_url_def strip_def isspace_def)

lemma sanitize_example_trailing: "sanitize_url ''https://www.example.com '' = ''https://www.example.com''"
  by (simp add: sanitize_url_def strip_def isspace_def)

lemma validate_example: "validate_url urlparse_netloc ''https://www.example.com'' = (True, [])"
  by (simp add: validate_url_def netloc_example)

lemma validate_example_trailing: "validate_url urlparse_netloc ''https://www.example.com '' = (True, [])"
  by (simp add: validate_url_def netloc_example_trailing)

theorem validate_url_correct_witness:
  "\<not> spec_validate_url_fails urlparse_netloc ''https://www.example.com''
   \<and> validate_url urlparse_netloc ''https://www.example.com'' = (True, [])
   \<and> spec_validate_url_fails urlparse_netloc ''not-a-url''
   \<and> \<not> fst (validate_url urlparse_netloc ''not-a-url'')
   \<and> snd (validate_url urlparse_netloc ''not-a-url'') \<noteq> []
   \<and> spec_validate_url_fails urlparse_netloc ''http://ab''
   \<and> \<not> fst (validate_url urlparse_netloc ''http://ab'')
   \<and> spec_validate_url_fails urlparse_netloc ''   ''
   \<and> \<not> fst (validate_url urlparse_netloc ''   '')"
proof -
  have a: "\<not> spec_validate_url_fails urlparse_netloc ''https://www.example.com''"
    by (simp add: spec_validate_url_fails_def strip_def isspace_def netloc_example)
  have b: "spec_validate_url_fails urlparse_netloc ''not-a-url''"
    by (simp add: spec_validate_url_fails_def)
  have c: "spec_validate_url_fails urlparse_netloc ''http://ab''"
    by (simp add: spec_validate_url_fails_def netloc_example_short)
  have d: "spec_validate_url_fails urlparse_netloc ''   ''"
    by (simp add: spec_validate_url_fails_def strip_def isspace_def)
  show ?thesis
    using a b c d
      validate_url_correct [of urlparse_netloc "''https://www.example.com''"]
      validate_url_correct [of urlparse_netloc "''not-a-url''"]
      validate_url_correct [of urlparse_netloc "''http://ab''"]
      validate_url_correct [of urlparse_netloc "''   ''"]
    by blast
qed

text \<open>
  C10. \<open>validate_url\<close> does not trim: whatever the parser, an input whose first character
  is whitespace is rejected by the prefix check on the raw string, and this also when the
  trimmed string is accepted, as for \<open>https://www.example.com\<close> after one leading space;
  with the standard parser the same URL followed by one space is accepted.
\<close>

theorem validate_url_does_not_trim:
  "(u \<noteq> [] \<and> isspace (hd u) \<longrightarrow>
      validate_url P u = (False, ''URL must start with http:// or https://''))
   \<and> validate_url urlparse_netloc (sanitize_url '' https://www.example.com'') = (True, [])
   \<and> validate_url urlparse_netloc ''https://www.example.com '' = (True, [])"
proof (intro conjI impI)
  assume h: "u \<noteq> [] \<and> isspace (hd u)"
  have "\<not> (prefix ''http://'' u \<or> prefix ''https://'' u)"
  proof
    assume "prefix ''http://'' u \<or> prefix ''https://'' u"
    then have "hd u = CHR ''h''" using prefix_http_hd by blast
    then show False using h not_isspace_h by simp
  qed
  then show "validate_url P u = (False, ''URL must start with http:// or https://'')"
    using h by (simp add: validate_url_def)
next
  show "validate_url urlparse_netloc (sanitize_url '' https://www.example.com'') = (True, [])"
    unfolding sanitize_example_leading by (rule validate_example)
next
  show "validate_url urlparse_netloc ''https://www.example.com '' = (True, [])"
    by (rule validate_example_trailing)
qed

theorem validate_url_does_not_trim_witness:
  "'' https://www.example.com'' \<noteq> [] \<and> isspace (hd '' https://www.example.com'')
   \<and> validate_url urlparse_netloc '' https://www.example.com'' =
       (False, ''URL must start with http:// or https://'')
   \<and> validate_url urlparse_netloc (sanitize_url '' https://www.example.com'') = (True, [])"
proof -
  have a: "'' https://www.example.com'' \<noteq> [] \<and> isspace (hd '' https://www.example.com'')"
    by (simp add: isspace_def)
  show ?thesis
    using a validate_url_does_not_trim [of "'' https://www.example.com''" urlparse_netloc]
    by blast
qed

lemma shorten_url_success:
  assumes "shorten_url P now req g s = (Json b 201, g', s')"
  shows "\<exists>data raw code r.
           is_json req \<and> get_json req = Some data \<and> data ''url'' = Some (JString raw)
         \<and> fst (validate_url P (sanitize_url raw))
         \<and> generate_unique_short_code s 6 10 g = (Inr code, g')
         \<and> create_url_mapping now code (sanitize_url raw) s = (Inr r, s')
         \<and> b = ShortenBody code (format_short_url code ''http://localhost:5000'')"
  using assms
  by (auto simp: shorten_url_def Let_def
      split: if_splits option.splits json.splits prod.splits sum.splits error.splits)

lemma generate_unique_short_code_Inr:
  assumes "generate_unique_short_code s len mx g = (Inr code, g')"
  shows "code \<in> set (candidates len mx g)" and "code \<notin> dom (urls s)"
proof -
  have "fst (unique_loop mx len mx s g) = Inr code"
    using assms by (simp add: generate_unique_short_code_def)
  then have "find (\<lambda>c. c \<notin> dom (urls s)) (candidates len mx g) = Some code"
    by (simp add: unique_loop_find split: option.splits)
  then have "code \<in> set (candidates len mx g) \<and> code \<notin> dom (urls s)"
    by (rule find_Some_holds)
  then show "code \<in> set (candidates len mx g)" and "code \<notin> dom (urls s)" by simp_all
qed

lemma format_short_url_default:
  "format_short_url code ''http://localhost:5000'' = ''http://localhost:5000/'' @ code"
  by (simp add: format_short_url_def)

text \<open>
  C9. A response of \<open>shorten_url\<close> with status 201 carries a short code of exactly six
  characters, each of them from the 62 distinct letters and digits of \<open>characters\<close>, and
  the short URL \<open>http://localhost:5000/\<close> followed by that code, which is what
  \<open>format_short_url\<close> makes of the code and the default base.
\<close>

theorem shorten_url_code_and_short_url:
  assumes "shorten_url P now req g s = (Json b 201, g', s')"
  shows "\<exists>code. b = ShortenBody code (''http://localhost:5000/'' @ code)
           \<and> length code = 6
           \<and> set code \<subseteq> set characters
           \<and> length characters = 62 \<and> distinct characters
           \<and> format_short_url code ''http://localhost:5000'' = ''http://localhost:5000/'' @ code"
proof -
  from shorten_url_success [OF assms] obtain code where
    gen: "generate_unique_short_code s 6 10 g = (Inr code, g')" and
    b: "b = ShortenBody code (format_short_url code ''http://localhost:5000'')"
    by blast
  have "code \<in> set (candidates 6 10 g)" by (rule generate_unique_short_code_Inr(1) [OF gen])
  then have "length code = 6 \<and> set code \<subseteq> set characters" by (rule candidates_shape)
  then show ?thesis
    using b characters_length characters_distinct by (simp add: format_short_url_default)
qed

lemma unique_loop_first:
  assumes "0 < k" and "generate_short_code len g = (code, g1)" and "code \<notin> dom (urls s)"
  shows "unique_loop k len mx s g = (Inr code, g1)"
proof -
  from assms(1) obtain j where "k = Suc j" by (cases k) auto
  then show ?thesis using assms(2,3) by (simp add: url_exists_def)
qed

lemma shorten_url_example:
  assumes "fst (validate_url P (sanitize_url u))"
  shows "shorten_url P now (url_request u) example_rng url_store =
           (Json (ShortenBody ''abc123'' ''http://localhost:5000/abc123'') 201,
            example_rng\<lparr>pos := 6\<rparr>,
            snd (create_url_mapping now ''abc123'' (sanitize_url u) url_store))"
proof -
  have new: "''abc123'' \<notin> dom (urls url_store)" by (simp add: url_store_def)
  have gen: "generate_unique_short_code url_store 6 10 example_rng =
      (Inr ''abc123'', example_rng\<lparr>pos := 6\<rparr>)"
    unfolding generate_unique_short_code_def
    by (rule unique_loop_first [OF _ generate_short_code_example_1 new]) simp
  obtain m where v: "validate_url P (sanitize_url u) = (True, m)"
    using assms by (cases "validate_url P (sanitize_url u)") auto
  show ?thesis
    by (simp add: shorten_url_def url_request_def v gen create_ok [OF new]
        format_short_url_default Let_def)
qed

theorem shorten_url_code_and_short_url_witness:
  "shorten_url urlparse_netloc ''2024-01-01T10:00:00'' (url_request ''https://www.example.com'')
     example_rng url_store =
     (Json (ShortenBody ''abc123'' ''http://localhost:5000/abc123'') 201,
      example_rng\<lparr>pos := 6\<rparr>, example_store)
   \<and> length ''abc123'' = 6 \<and> set ''abc123'' \<subseteq> set characters"
proof -
  have s: "sanitize_url ''https://www.example.com'' = ''https://www.example.com''"
    by (simp add: sanitize_url_def strip_def isspace_def)
  have v: "fst (validate_url urlparse_netloc (sanitize_url ''https://www.example.com''))"
    unfolding s by (simp add: validate_example)
  have run: "shorten_url urlparse_netloc ''2024-01-01T10:00:00''
      (url_request ''https://www.example.com'') example_rng url_store =
     (Json (ShortenBody ''abc123'' ''http://localhost:5000/abc123'') 201,
      example_rng\<lparr>pos := 6\<rparr>, example_store)"
    using shorten_url_example [OF v, of "''2024-01-01T10:00:00''"]
    by (simp add: s example_store_def)
  from shorten_url_code_and_short_url [OF run] run show ?thesis by auto
qed

lemma redirect_to_url_found:
  assumes "urls s code = Some a" and "a < length (heap s)"
  shows "fst (redirect_to_url code s) = Redirect (original_url (heap s ! a)) 302"
    and "snd (redirect_to_url code s) = snd (increment_clicks code s)"
    and "lookup (snd (redirect_to_url code s)) code =
           Some ((heap s ! a)\<lparr>clicks := clicks (heap s ! a) + 1\<rparr>)"
  using assms
  by (simp_all add: redirect_to_url_def get_url_mapping_def increment_clicks_def deref_def
      lookup_def)

lemma redirect_to_url_not_found:
  "urls s code = None \<Longrightarrow>
   redirect_to_url code s = (Json (ErrorBody ''Short code not found'') 404, s)"
  by (simp add: redirect_to_url_def get_url_mapping_def)

lemma redirect_after_create:
  assumes "create_url_mapping now code original s = (Inr r, s')"
  shows "lookup s' code =
           Some \<lparr>original_url = original, short_code = code, clicks = 0, created_at = now\<rparr>"
    and "fst (redirect_to_url code s') = Redirect original 302"
    and "lookup (snd (redirect_to_url code s')) code =
           Some \<lparr>original_url = original, short_code = code, clicks = 1, created_at = now\<rparr>"
proof -
  have new: "code \<notin> dom (urls s)" using assms
    by (auto simp: create_url_mapping_def split: if_splits)
  have s': "s' = \<lparr>heap = heap s @ [\<lparr>original_url = original, short_code = code, clicks = 0, created_at = now\<rparr>,
                        \<lparr>original_url = original, short_code = code, clicks = 0, created_at = now\<rparr>],
       urls = (urls s)(code \<mapsto> length (heap s))\<rparr>"
    using assms by (simp add: create_ok [OF new])
  have a: "urls s' code = Some (length (heap s))" by (simp add: s')
  have lt: "length (heap s) < length (heap s')" by (simp add: s')
  have at: "heap s' ! length (heap s) =
      \<lparr>original_url = original, short_code = code, clicks = 0, created_at = now\<rparr>"
    by (simp add: s' nth_append)
  show "lookup s' code =
      Some \<lparr>original_url = original, short_code = code, clicks = 0, created_at = now\<rparr>"
    using a at by (simp add: lookup_def)
  show "fst (redirect_to_url code s') = Redirect original 302"
    using redirect_to_url_found(1) [OF a lt] at by simp
  show "lookup (snd (redirect_to_url code s')) code =
      Some \<lparr>original_url = original, short_code = code, clicks = 1, created_at = now\<rparr>"
    using redirect_to_url_found(3) [OF a lt] at by simp
qed

text \<open>
  C3, as stated, fails: the URL \<open>https://www.example.com\<close> followed by one space is accepted
  by \<open>validate_url\<close>, shortening it succeeds with the code \<open>abc123\<close>, and resolving that
  code redirects to the URL without the space, which is not the URL that was shortened.
\<close>

theorem round_trip_counterexample:
  "validate_url urlparse_netloc ''https://www.example.com '' = (True, [])
   \<and> fst (shorten_url urlparse_netloc ''2024-01-01T10:00:00''
            (url_request ''https://www.example.com '') example_rng url_store) =
       Json (ShortenBody ''abc123'' ''http://localhost:5000/abc123'') 201
   \<and> fst (redirect_to_url ''abc123''
            (snd (snd (shorten_url urlparse_netloc ''2024-01-01T10:00:00''
               (url_request ''https://www.example.com '') example_rng url_store)))) =
       Redirect ''https://www.example.com'' 302
   \<and> fst (redirect_to_url ''abc123''
            (snd (snd (shorten_url urlparse_netloc ''2024-01-01T10:00:00''
               (url_request ''https://www.example.com '') example_rng url_store)))) \<noteq>
       Redirect ''https://www.example.com '' 302"
proof -
  have v: "fst (validate_url urlparse_netloc (sanitize_url ''https://www.example.com ''))"
    unfolding sanitize_example_trailing by (simp add: validate_example)
  have new: "''abc123'' \<notin> dom (urls url_store)" by (simp add: url_store_def)
  have run: "shorten_url urlparse_netloc ''2024-01-01T10:00:00''
      (url_request ''https://www.example.com '') example_rng url_store =
     (Json (ShortenBody ''abc123'' ''http://localhost:5000/abc123'') 201,
      example_rng\<lparr>pos := 6\<rparr>, example_store)"
    using shorten_url_example [OF v, of "''2024-01-01T10:00:00''"]
    by (simp add: sanitize_example_trailing example_store_def)
  have c: "create_url_mapping ''2024-01-01T10:00:00'' ''abc123'' ''https://www.example.com''
      url_store = (Inr (Suc (length (heap url_store))), example_store)"
    by (simp add: create_ok [OF new] example_store_def)
  have r: "fst (redirect_to_url ''abc123'' example_store) = Redirect ''https://www.example.com'' 302"
    by (rule redirect_after_create(2) [OF c])
  show ?thesis using run r by (simp add: validate_example_trailing)
qed

lemma store_inv_fold_apply_op: "store_inv s \<Longrightarrow> store_inv (fold apply_op ops s)"
  by (induction ops arbitrary: s) (simp_all add: store_inv_apply_op)

lemma redirect_to_url_present:
  assumes "store_inv s" and "lookup s code = Some r"
  shows "fst (redirect_to_url code s) = Redirect (original_url r) 302"
    and "lookup (snd (redirect_to_url code s)) code = Some (r\<lparr>clicks := clicks r + 1\<rparr>)"
proof -
  from assms(2) obtain a where a: "urls s code = Some a" and r: "r = heap s ! a"
    by (auto simp: lookup_def)
  from a assms(1) have lt: "a < length (heap s)" by (simp add: store_inv_def)
  show "fst (redirect_to_url code s) = Redirect (original_url r) 302"
    using redirect_to_url_found(1) [OF a lt] r by simp
  show "lookup (snd (redirect_to_url code s)) code = Some (r\<lparr>clicks := clicks r + 1\<rparr>)"
    using redirect_to_url_found(3) [OF a lt] r by simp
qed

text \<open>
  C3, amended. Let the store satisfy the store invariant and let \<open>shorten_url\<close> answer a
  request with the URL \<open>u\<close> with status 201 and a short code. Then the store holds under
  that code a record with the URL \<open>sanitize_url u\<close>, which is \<open>u\<close> without its leading and
  trailing whitespace, and no clicks. After any further store operations, resolving the
  code redirects with status 302 to \<open>sanitize_url u\<close>, and that one resolution takes the
  record's clicks from their value before it to exactly one more, changing no other field.
\<close>

theorem shorten_then_redirect:
  assumes "store_inv s"
    and "get_json req = Some data" and "data ''url'' = Some (JString u)"
    and "shorten_url P now req g s = (Json b 201, g', s')"
  shows "\<exists>code r r2.
           b = ShortenBody code (format_short_url code ''http://localhost:5000'')
         \<and> lookup s' code = Some r
         \<and> original_url r = sanitize_url u \<and> clicks r = 0
         \<and> lookup (fold apply_op ops s') code = Some r2
         \<and> fst (redirect_to_url code (fold apply_op ops s')) = Redirect (sanitize_url u) 302
         \<and> lookup (snd (redirect_to_url code (fold apply_op ops s'))) code =
             Some (r2\<lparr>clicks := clicks r2 + 1\<rparr>)"
proof -
  from shorten_url_success [OF assms(4)] assms(2,3) obtain code a where
    c: "create_url_mapping now code (sanitize_url u) s = (Inr a, s')" and
    b: "b = ShortenBody code (format_short_url code ''http://localhost:5000'')"
    by auto
  let ?r = "\<lparr>original_url = sanitize_url u, short_code = code, clicks = 0, created_at = now\<rparr>"
  let ?r2 = "?r\<lparr>clicks := clicks ?r + int (count_list ops (IncrementClicks code))\<rparr>"
  let ?t = "fold apply_op ops s'"
  have l: "lookup s' code = Some ?r" by (rule redirect_after_create(1) [OF c])
  have "store_inv (snd (create_url_mapping now code (sanitize_url u) s))"
    by (rule store_inv_create [OF assms(1)])
  then have inv: "store_inv s'" by (simp add: c)
  have inv2: "store_inv ?t" by (rule store_inv_fold_apply_op [OF inv])
  have l2: "lookup ?t code = Some ?r2" by (rule lookup_fold_apply_op [OF inv l])
  have "fst (redirect_to_url code ?t) = Redirect (original_url ?r2) 302"
    by (rule redirect_to_url_present(1) [OF inv2 l2])
  then have red: "fst (redirect_to_url code ?t) = Redirect (sanitize_url u) 302" by simp
  have inc: "lookup (snd (redirect_to_url code ?t)) code = Some (?r2\<lparr>clicks := clicks ?r2 + 1\<rparr>)"
    by (rule redirect_to_url_present(2) [OF inv2 l2])
  have "b = ShortenBody code (format_short_url code ''http://localhost:5000'')
         \<and> lookup s' code = Some ?r
         \<and> original_url ?r = sanitize_url u \<and> clicks ?r = 0
         \<and> lookup ?t code = Some ?r2
         \<and> fst (redirect_to_url code ?t) = Redirect (sanitize_url u) 302
         \<and> lookup (snd (redirect_to_url code ?t)) code = Some (?r2\<lparr>clicks := clicks ?r2 + 1\<rparr>)"
    using b l l2 red inc by simp
  then show ?thesis by blast
qed

theorem shorten_then_redirect_witness:
  "store_inv url_store
   \<and> get_json (url_request ''https://www.example.com '') =
       Some [''url'' \<mapsto> JString ''https://www.example.com '']
   \<and> shorten_url urlparse_netloc ''2024-01-01T10:00:00''
        (url_request ''https://www.example.com '') example_rng url_store =
       (Json (ShortenBody ''abc123'' ''http://localhost:5000/abc123'') 201,
        example_rng\<lparr>pos := 6\<rparr>, example_store)
   \<and> fst (redirect_to_url ''abc123''
        (fold apply_op [IncrementClicks ''abc123'', Stats ''abc123''] example_store)) =
       Redirect ''https://www.example.com'' 302
   \<and> map_option clicks
        (lookup (fold apply_op [IncrementClicks ''abc123'', Stats ''abc123''] example_store)
           ''abc123'') = Some 1
   \<and> map_option clicks
        (lookup (snd (redirect_to_url ''abc123''
           (fold apply_op [IncrementClicks ''abc123'', Stats ''abc123''] example_store)))
           ''abc123'') = Some 2"
proof -
  let ?ops = "[IncrementClicks ''abc123'', Stats ''abc123'']"
  have j: "get_json (url_request ''https://www.example.com '') =
     Some [''url'' \<mapsto> JString ''https://www.example.com '']"
    by (simp add: url_request_def)
  have u: "[''url'' \<mapsto> JString ''https://www.example.com ''] ''url'' =
      Some (JString ''https://www.example.com '')"
    by simp
  have v: "fst (validate_url urlparse_netloc (sanitize_url ''https://www.example.com ''))"
    unfolding sanitize_example_trailing by (simp add: validate_example)
  have run: "shorten_url urlparse_netloc ''2024-01-01T10:00:00''
      (url_request ''https://www.example.com '') example_rng url_store =
     (Json (ShortenBody ''abc123'' ''http://localhost:5000/abc123'') 201,
      example_rng\<lparr>pos := 6\<rparr>, example_store)"
    using shorten_url_example [OF v, of "''2024-01-01T10:00:00''"]
    by (simp add: sanitize_example_trailing example_store_def)
  have before: "map_option clicks (lookup (fold apply_op ?ops example_store) ''abc123'') = Some 1"
    by (simp add: example_store_eq lookup_def increment_clicks_def get_stats_def)
  from shorten_then_redirect [OF store_inv_url_store j u run, of ?ops]
  obtain r2 where
    l2: "lookup (fold apply_op ?ops example_store) ''abc123'' = Some r2" and
    red: "fst (redirect_to_url ''abc123'' (fold apply_op ?ops example_store)) =
        Redirect (sanitize_url ''https://www.example.com '') 302" and
    inc: "lookup (snd (redirect_to_url ''abc123'' (fold apply_op ?ops example_store))) ''abc123'' =
        Some (r2\<lparr>clicks := clicks r2 + 1\<rparr>)"
    by auto
  from before l2 have "clicks r2 = 1" by simp
  then have after: "map_option clicks
      (lookup (snd (redirect_to_url ''abc123'' (fold apply_op ?ops example_store))) ''abc123'') =
      Some 2"
    using inc by simp
  show ?thesis
    using store_inv_url_store j run red before after
    by (simp add: sanitize_example_trailing)
qed

end
